theory Spec2Isabelle
  imports Complex_Main
begin

section \<open>The live-audio element of \<open>index.tsx\<close>\<close>

text \<open>
  The class \<open>GdmLiveAudio\<close> is embedded as a record of its fields and one function per
  method or callback. Samples, sample rates and clock readings are JavaScript numbers;
  they are modelled as reals (no NaN, no infinity). The resampler rounds every operation
  as the doubles of the code do; the level of a frame and the clock are computed over
  the reals. The host delivers callbacks one
  at a time, so every handler is a function from the state before to the state after.
  Two logs stand for the calls made on external objects: \<open>sent\<close> holds the sample
  arrays passed through \<open>createBlob\<close> to \<open>session.sendRealtimeInput\<close>, and
  \<open>device\<close> holds the \<open>start\<close> and \<open>stop\<close> calls on buffer sources. A
  buffer source is identified by a number drawn from \<open>nextToken\<close>, which stands for
  the identity of the JavaScript object. The boolean fields \<open>session\<close>,
  \<open>audioContext\<close>, \<open>inputNode\<close>, \<open>outputNode\<close> and \<open>mediaStream\<close> say whether
  the field of the class holds an object; \<open>sampleRate\<close> is the rate of the audio
  context. \<open>decoding\<close> holds the messages whose handler is suspended at its
  \<open>await\<close>. The status and error texts shown to the user are left out.
\<close>

subsection \<open>Data\<close>

datatype conversation = Waiting | Listening | Processing | Responding

datatype error = TypeError | RangeError

datatype outcome = Returned | Threw error

datatype deviceCall = SourceStart nat real | SourceStop nat

text \<open>
  A server message is reduced to what the handler reads: the inline audio of its first
  part, given by the duration of the buffer that \<open>decodeAudioData\<close> makes of it, and
  the \<open>interrupted\<close> flag.
\<close>

record message =
  audio :: "real option"
  interrupted :: bool

record state =
  isRecording :: bool
  conversationState :: conversation
  session :: bool
  audioContext :: bool
  sampleRate :: real
  inputNode :: bool
  outputNode :: bool
  nextStartTime :: real
  mediaStream :: bool
  sources :: "nat list"
  audioBuffer :: "real list list"
  silenceCount :: nat
  lastAudioLevel :: real
  isProcessingAudio :: bool
  sent :: "real list list"
  device :: "deviceCall list"
  nextToken :: nat
  decoding :: "message list"

text \<open>The field initialisers of the class; nothing has been sent or scheduled yet.\<close>

definition init :: state where
  "init = \<lparr> isRecording = False, conversationState = Waiting, session = False,
            audioContext = False, sampleRate = 0, inputNode = False, outputNode = False,
            nextStartTime = 0, mediaStream = False, sources = [], audioBuffer = [],
            silenceCount = 0, lastAudioLevel = 0, isProcessingAudio = False,
            sent = [], device = [], nextToken = 0, decoding = [] \<rparr>"

text \<open>Private fields that are initialised once and never assigned again.\<close>

definition silenceThreshold :: real where
  "silenceThreshold = 1 / 100"

definition maxSilenceFrames :: nat where
  "maxSilenceFrames = 30"

definition minAudioFrames :: nat where
  "minAudioFrames = 10"

subsection \<open>Rounding\<close>

text \<open>
  The resampler computes with doubles and stores its results in a \<open>Float32Array\<close>.
  A number is a real; an operation on doubles is the exact operation followed by
  \<open>toDouble\<close>, and a store into the array is \<open>toFloat32\<close>. Both round to the nearest
  number of the format, a tie to the one with an even significand; below the smallest
  normal number the spacing stays that of the smallest exponent. Overflow to infinity
  and NaN have no counterpart among the reals.
\<close>

definition roundHalfEven :: "real \<Rightarrow> int" where
  "roundHalfEven q =
     (let f = \<lfloor>q\<rfloor>; r = q - of_int f
      in if r < 1 / 2 then f else if 1 / 2 < r then f + 1 else if even f then f else f + 1)"

text \<open>The exponent \<open>e\<close> with \<open>2 ^ e \<le> x < 2 ^ (e + 1)\<close>, for a positive \<open>x\<close>.\<close>

function binaryExponent :: "real \<Rightarrow> int" where
  "binaryExponent x =
     (if x \<le> 0 then 0
      else if 2 \<le> x then binaryExponent (x / 2) + 1
      else if x < 1 then binaryExponent (2 * x) - 1
      else 0)"
  by pat_completeness auto
termination
proof (relation "measure (\<lambda>x. nat \<bar>\<lfloor>log 2 x\<rfloor>\<bar>)")
  show "wf (measure (\<lambda>x. nat \<bar>\<lfloor>log 2 x\<rfloor>\<bar>))" by simp
next
  fix x :: real
  assume "\<not> x \<le> 0" "2 \<le> x"
  then have "log 2 (x / 2) = log 2 x - 1" by (simp add: log_divide)
  moreover have "1 \<le> log 2 x" using \<open>2 \<le> x\<close> by (simp add: le_log_iff)
  ultimately show "(x / 2, x) \<in> measure (\<lambda>x. nat \<bar>\<lfloor>log 2 x\<rfloor>\<bar>)"
    by (simp add: floor_diff_one)
next
  fix x :: real
  assume "\<not> x \<le> 0" "\<not> 2 \<le> x" "x < 1"
  then have eq: "log 2 (2 * x) = log 2 x + 1" by (simp add: log_mult)
  have "log 2 x < 0" using \<open>x < 1\<close> \<open>\<not> x \<le> 0\<close> by simp
  then have neg: "\<lfloor>log 2 x\<rfloor> \<le> - 1" by linarith
  show "(2 * x, x) \<in> measure (\<lambda>x. nat \<bar>\<lfloor>log 2 x\<rfloor>\<bar>)"
    by (simp add: eq) (insert neg, linarith)
qed

declare binaryExponent.simps [simp del]

text \<open>
  Rounding to a binary format with \<open>p\<close> significant bits and least normal exponent
  \<open>emin\<close>.
\<close>

definition roundToFormat :: "nat \<Rightarrow> int \<Rightarrow> real \<Rightarrow> real" where
  "roundToFormat p emin x =
     (if x = 0 then 0
      else
        let e = max (binaryExponent \<bar>x\<bar>) emin - (int p - 1);
            ulp = 2 powi e
        in sgn x * of_int (roundHalfEven (\<bar>x\<bar> / ulp)) * ulp)"

definition toDouble :: "real \<Rightarrow> real" where
  "toDouble = roundToFormat 53 (- 1022)"

definition toFloat32 :: "real \<Rightarrow> real" where
  "toFloat32 = roundToFormat 24 (- 126)"

subsection \<open>\<open>resampleTo16kHz\<close>\<close>

text \<open>
  \<open>input[index] || 0\<close>: an index past the end reads \<open>undefined\<close>, which is falsy, and
  so is the sample 0.
\<close>

definition orZero :: "real list \<Rightarrow> nat \<Rightarrow> real" where
  "orZero input index =
     (if index < length input then (if input ! index = 0 then 0 else input ! index) else 0)"

text \<open>The body of the loop: the value stored at \<open>output[i]\<close>.\<close>

definition resampleAt :: "real list \<Rightarrow> real \<Rightarrow> nat \<Rightarrow> real" where
  "resampleAt input ratio i =
     (let srcIndex = toDouble (real i * ratio);
          index = nat \<lfloor>srcIndex\<rfloor>;
          fraction = toDouble (srcIndex - real index)
      in if index + 1 < length input
         then toFloat32
                (toDouble (toDouble (input ! index * toDouble (1 - fraction))
                           + toDouble (input ! (index + 1) * fraction)))
         else toFloat32 (orZero input index))"

text \<open>The \<open>for\<close> loop over \<open>i\<close>, writing into the zero-filled output array.\<close>

function resampleLoop :: "real list \<Rightarrow> real \<Rightarrow> nat \<Rightarrow> nat \<Rightarrow> real list \<Rightarrow> real list" where
  "resampleLoop input ratio outputLength i output =
     (if i < outputLength
      then resampleLoop input ratio outputLength (Suc i) (output[i := resampleAt input ratio i])
      else output)"
  by pat_completeness auto
termination
  by (relation "measure (\<lambda>(input, ratio, outputLength, i, output). outputLength - i)") auto

declare resampleLoop.simps [simp del]

text \<open>
  \<open>new Float32Array(outputLength)\<close> throws a RangeError unless the length is an
  integer from 0 to \<open>2 ^ 53 - 1\<close>. A ratio of 0 (a rate of 0, or one so small that the
  quotient by 16000 rounds to 0) makes the length infinite for a non-empty input and NaN,
  which gives the empty array, for an empty one; a negative rate makes it negative. What
  the host refuses for want of memory is not modelled.
\<close>

definition maxIndex :: int where
  "maxIndex = 2 ^ 53 - 1"

definition resampleTo16kHz :: "real list \<Rightarrow> real \<Rightarrow> error + real list" where
  "resampleTo16kHz input inputSampleRate =
     (let outputSampleRate = 16000 in
      if inputSampleRate = outputSampleRate then Inr input
      else
        let ratio = toDouble (inputSampleRate / outputSampleRate)
        in if ratio = 0 then (if input = [] then Inr [] else Inl RangeError)
           else
             let outputLength = \<lfloor>toDouble (real (length input) / ratio)\<rfloor>
             in if outputLength < 0 \<or> maxIndex < outputLength then Inl RangeError
                else Inr (resampleLoop input ratio (nat outputLength) 0
                            (replicate (nat outputLength) 0)))"

subsection \<open>Level and voice activity\<close>

text \<open>
  The root mean square of the samples. For an empty frame the source computes \<open>0 / 0\<close>,
  a NaN that compares false with the threshold; the model's value there is 0, which
  compares false as well.
\<close>

definition calculateAudioLevel :: "real list \<Rightarrow> real" where
  "calculateAudioLevel samples =
     sqrt (foldl (\<lambda>sum x. sum + x * x) 0 samples / real (length samples))"

definition hasVoiceActivity :: "real \<Rightarrow> bool" where
  "hasVoiceActivity audioLevel = (audioLevel > silenceThreshold)"

subsection \<open>\<open>sendAudioChunk\<close> and its cool-down timer\<close>

text \<open>
  The frames are copied one after the other into \<open>combinedAudio\<close>. The call on
  \<open>this.session\<close> throws a TypeError when no session was ever connectOk; the guard has
  been set by then, the buffer has not been emptied and no timer has been started.
\<close>

definition sendAudioChunk :: "state \<Rightarrow> outcome \<times> state" where
  "sendAudioChunk s =
     (if length (audioBuffer s) < minAudioFrames \<or> isProcessingAudio s then (Returned, s)
      else
        let s1 = s\<lparr>isProcessingAudio := True\<rparr>;
            combinedAudio = foldl (\<lambda>combined chunk. combined @ chunk) [] (audioBuffer s1)
        in if \<not> session s1 then (Threw TypeError, s1)
           else (Returned, s1\<lparr>sent := sent s1 @ [combinedAudio], audioBuffer := []\<rparr>))"

text \<open>The callback given to \<open>setTimeout\<close>, run by the host 50 ms after a send.\<close>

definition cooldownElapsed :: "state \<Rightarrow> state" where
  "cooldownElapsed s = s\<lparr>isProcessingAudio := False\<rparr>"

subsection \<open>The capture callback \<open>onaudioprocess\<close>\<close>

text \<open>
  An exception leaves the handler at once; the assignments made before it stay. The
  sample rate is read from \<open>this.audioContext\<close>.
\<close>

definition onaudioprocess :: "real list \<Rightarrow> state \<Rightarrow> outcome \<times> state" where
  "onaudioprocess pcmData s =
     (if \<not> isRecording s then (Returned, s)
      else
        let audioLevel = calculateAudioLevel pcmData;
            s1 = s\<lparr>lastAudioLevel := audioLevel\<rparr>
        in if hasVoiceActivity audioLevel
           then
             let s2 = s1\<lparr>silenceCount := 0, conversationState := Listening\<rparr>
             in if \<not> audioContext s2 then (Threw TypeError, s2)
                else (case resampleTo16kHz pcmData (sampleRate s2) of
                        Inl e \<Rightarrow> (Threw e, s2)
                      | Inr resampledData \<Rightarrow>
                          let s3 = s2\<lparr>audioBuffer := audioBuffer s2 @ [resampledData]\<rparr>
                          in if length (audioBuffer s3) \<ge> 20 then sendAudioChunk s3
                             else (Returned, s3))
           else
             let s2 = s1\<lparr>silenceCount := silenceCount s1 + 1\<rparr>
             in if length (audioBuffer s2) > 0 \<and> silenceCount s2 \<ge> maxSilenceFrames
                then (case sendAudioChunk s2 of
                        (Returned, s3) \<Rightarrow> (Returned, s3\<lparr>conversationState := Processing\<rparr>)
                      | (Threw e, s3) \<Rightarrow> (Threw e, s3))
                else (Returned, s2))"

subsection \<open>Starting, stopping and resetting\<close>

text \<open>
  \<open>initAudio\<close> creates the audio context and its two gain nodes on first use; the
  host chooses the sample rate. \<open>now\<close> is the reading of \<open>audioContext.currentTime\<close>.
\<close>

definition initAudio :: "real \<Rightarrow> real \<Rightarrow> state \<Rightarrow> state" where
  "initAudio now systemRate s =
     (let s1 = (if \<not> audioContext s
                then s\<lparr>audioContext := True, sampleRate := systemRate,
                       inputNode := True, outputNode := True\<rparr>
                else s)
      in s1\<lparr>nextStartTime := now\<rparr>)"

text \<open>
  \<open>initSession\<close> assigns \<open>this.session\<close> when the connection succeeds and only logs
  the failure otherwise (also when the client was never created for want of an API key).
\<close>

definition initSession :: "bool \<Rightarrow> state \<Rightarrow> state" where
  "initSession connectOk s = (if connectOk then s\<lparr>session := True\<rparr> else s)"

definition onopen :: "state \<Rightarrow> state" where
  "onopen s = s\<lparr>conversationState := Waiting\<rparr>"

definition stopRecording :: "state \<Rightarrow> outcome \<times> state" where
  "stopRecording s =
     (if \<not> isRecording s \<and> \<not> mediaStream s \<and> \<not> audioContext s then (Returned, s)
      else
        let s1 = s\<lparr>isRecording := False\<rparr>
        in case (if length (audioBuffer s1) > 0 then sendAudioChunk s1 else (Returned, s1)) of
             (Threw e, s2) \<Rightarrow> (Threw e, s2)
           | (Returned, s2) \<Rightarrow>
               (Returned, s2\<lparr>mediaStream := False, audioBuffer := [], silenceCount := 0,
                              isProcessingAudio := False, conversationState := Processing\<rparr>))"

text \<open>
  \<open>startRecording\<close> awaits the session, the context and the microphone; the model runs
  it in one step, with the outcome of the connection and of \<open>getUserMedia\<close> as
  arguments. A refused microphone lands in the \<open>catch\<close> block, which calls
  \<open>stopRecording\<close>.
\<close>

definition startRecording :: "real \<Rightarrow> real \<Rightarrow> bool \<Rightarrow> bool \<Rightarrow> state \<Rightarrow> state" where
  "startRecording now systemRate connectOk granted s =
     (if isRecording s then s
      else
        let s1 = initAudio now systemRate s
        in if \<not> audioContext s1 \<or> \<not> inputNode s1 then s1
           else
             let s2 = (if \<not> session s1 then initSession connectOk s1 else s1)
             in if granted
                then s2\<lparr>mediaStream := True, isRecording := True,
                        conversationState := Listening\<rparr>
                else snd (stopRecording s2))"

text \<open>
  \<open>reset\<close> starts a new connection without awaiting it; the model assigns the new
  session at once.
\<close>

definition reset :: "bool \<Rightarrow> state \<Rightarrow> state" where
  "reset connectOk s =
     (let s1 = s\<lparr>audioBuffer := [], silenceCount := 0, isProcessingAudio := False,
                 lastAudioLevel := 0\<rparr>;
          s2 = (if audioContext s1 then initSession connectOk s1 else s1)
      in s2\<lparr>conversationState := Waiting\<rparr>)"

subsection \<open>The session callback \<open>onmessage\<close> and the end of a source\<close>

text \<open>
  The handler is an async function. When the message carries audio and the context
  exists, it sets the state, raises \<open>nextStartTime\<close> to the clock and then awaits
  \<open>decodeAudioData\<close>; other handlers run while it is suspended. When the decoding
  is done it goes on from the \<open>nextStartTime\<close> it finds then: it starts the source,
  advances \<open>nextStartTime\<close> and adds the source to the Set, and only then looks at
  the \<open>interrupted\<close> flag. A message without audio goes to the flag at once.
  \<open>now\<close> is the reading of \<open>audioContext.currentTime\<close>.
\<close>

definition onmessageClamp :: "real \<Rightarrow> state \<Rightarrow> state" where
  "onmessageClamp now s =
     s\<lparr>conversationState := Responding, nextStartTime := max (nextStartTime s) now\<rparr>"

text \<open>After the await; \<open>sources\<close> is a Set, so adding is idempotent.\<close>

definition onmessageStart :: "real \<Rightarrow> state \<Rightarrow> state" where
  "onmessageStart duration s =
     (let source = nextToken s;
          s1 = s\<lparr>nextToken := Suc source,
                   device := device s @ [SourceStart source (nextStartTime s)]\<rparr>;
          s2 = s1\<lparr>nextStartTime := nextStartTime s1 + duration\<rparr>
      in s2\<lparr>sources := (if source \<in> set (sources s2) then sources s2
                             else sources s2 @ [source])\<rparr>)"

text \<open>
  The \<open>for\<close> loop over \<open>this.sources.values()\<close>: each source visited is stopped and
  deleted; deleting the current element of a Set does not disturb the iteration over
  the others.
\<close>

fun stopSources :: "nat list \<Rightarrow> state \<Rightarrow> state" where
  "stopSources [] s = s"
| "stopSources (source # rest) s =
     stopSources rest
       (s\<lparr>device := device s @ [SourceStop source],
          sources := removeAll source (sources s)\<rparr>)"

definition onmessageInterrupted :: "state \<Rightarrow> state" where
  "onmessageInterrupted s = (stopSources (sources s) s)\<lparr>nextStartTime := 0\<rparr>"

definition onmessageTail :: "message \<Rightarrow> state \<Rightarrow> state" where
  "onmessageTail msg s = (if interrupted msg then onmessageInterrupted s else s)"

text \<open>The handler from the arrival of the message to its await, or to its end.\<close>

definition onmessage :: "message \<Rightarrow> real \<Rightarrow> state \<Rightarrow> state" where
  "onmessage msg now s =
     (if audio msg \<noteq> None \<and> audioContext s \<and> outputNode s
      then (onmessageClamp now s)\<lparr>decoding := decoding s @ [msg]\<rparr>
      else onmessageTail msg s)"

text \<open>
  The rest of the handler of the \<open>i\<close>-th suspended message, run when its decoding is
  done; and the end of a handler whose decoding fails, which runs nothing more.
\<close>

definition ondecoded :: "nat \<Rightarrow> state \<Rightarrow> state" where
  "ondecoded i s =
     (if i < length (decoding s)
      then
        let msg = decoding s ! i;
            s1 = s\<lparr>decoding := take i (decoding s) @ drop (Suc i) (decoding s)\<rparr>
        in (case audio msg of
              Some duration \<Rightarrow> onmessageTail msg (onmessageStart duration s1)
            | None \<Rightarrow> s1)
      else s)"

definition ondecodeFailed :: "nat \<Rightarrow> state \<Rightarrow> state" where
  "ondecodeFailed i s =
     (if i < length (decoding s)
      then s\<lparr>decoding := take i (decoding s) @ drop (Suc i) (decoding s)\<rparr>
      else s)"

text \<open>The listener for \<open>ended\<close> registered on each source.\<close>

definition onended :: "nat \<Rightarrow> state \<Rightarrow> state" where
  "onended source s =
     (let s1 = s\<lparr>sources := removeAll source (sources s)\<rparr>
      in if length (sources s1) = 0 then s1\<lparr>conversationState := Waiting\<rparr> else s1)"

subsection \<open>Runs of the element\<close>

text \<open>
  The events the host delivers. An exception thrown by a handler is reported by the
  host and the element lives on in the state the handler left.
\<close>

datatype event =
    StartRecording real real bool bool
  | AudioProcess "real list"
  | CooldownElapsed
  | StopRecording
  | Message message real
  | Decoded nat
  | DecodeFailed nat
  | SourceEnded nat
  | Reset bool
  | SessionOpen

fun step :: "event \<Rightarrow> state \<Rightarrow> state" where
  "step (StartRecording now systemRate connectOk granted) s =
     startRecording now systemRate connectOk granted s"
| "step (AudioProcess pcmData) s = snd (onaudioprocess pcmData s)"
| "step CooldownElapsed s = cooldownElapsed s"
| "step StopRecording s = snd (stopRecording s)"
| "step (Message msg now) s = onmessage msg now s"
| "step (Decoded i) s = ondecoded i s"
| "step (DecodeFailed i) s = ondecodeFailed i s"
| "step (SourceEnded source) s = onended source s"
| "step (Reset connectOk) s = reset connectOk s"
| "step SessionOpen s = onopen s"

fun run :: "event list \<Rightarrow> state \<Rightarrow> state" where
  "run [] s = s"
| "run (e # es) s = run es (step e s)"

inductive reachable :: "state \<Rightarrow> bool" where
  reachable_init: "reachable init"
| reachable_step: "reachable s \<Longrightarrow> reachable (step e s)"

subsection \<open>What holds in every reachable state\<close>

text \<open>
  The sources in the Set are pairwise different objects created earlier, the gain nodes
  exist whenever the audio context does, and before the audio context exists nothing has
  been recorded or buffered.
\<close>

definition wellFormed :: "state \<Rightarrow> bool" where
  "wellFormed s =
     (distinct (sources s) \<and> (\<forall>src \<in> set (sources s). src < nextToken s) \<and>
      (audioContext s \<longrightarrow> inputNode s \<and> outputNode s) \<and>
      (\<not> audioContext s \<longrightarrow>
         \<not> isRecording s \<and> audioBuffer s = [] \<and> silenceCount s = 0 \<and> \<not> isProcessingAudio s))"

subsection \<open>Concrete states and frames for the examples\<close>

text \<open>
  \<open>started\<close> is the element after a first successful \<open>startRecording\<close> with the
  device clock at 0 and a 16 kHz context. \<open>threeSegments\<close> are three audio messages
  of 1 s, 0.5 s and 0.2 s, all received with the clock at 0, each decoded before the
  next arrives.
\<close>

definition started :: state where
  "started = startRecording 0 16000 True True init"

definition segment :: "real \<Rightarrow> message" where
  "segment duration = \<lparr>audio = Some duration, interrupted = False\<rparr>"

definition interruption :: message where
  "interruption = \<lparr>audio = None, interrupted = True\<rparr>"

definition threeSegments :: "event list" where
  "threeSegments =
     [Message (segment 1) 0, Decoded 0, Message (segment (1 / 2)) 0, Decoded 0,
      Message (segment (1 / 5)) 0, Decoded 0]"

text \<open>
  Two frames of 256 samples, as the script processor delivers them: \<open>loud\<close> has
  level 0.5 and \<open>quiet\<close> has level 0.005.
\<close>

definition loud :: "real list" where
  "loud = replicate 256 (1 / 2)"

definition quiet :: "real list" where
  "quiet = replicate 256 (1 / 200)"

text \<open>
  The events of a stretch of silence: frames that are not voiced, and the cool-down
  timer firing in between.
\<close>

fun quietEvent :: "event \<Rightarrow> bool" where
  "quietEvent (AudioProcess pcmData) = (\<not> hasVoiceActivity (calculateAudioLevel pcmData))"
| "quietEvent CooldownElapsed = True"
| "quietEvent _ = False"

text \<open>
  \<open>fiveQuiet\<close>: five silent frames. \<open>twoBatches\<close>: forty voiced frames with no timer
  in between. \<open>shortUtterance\<close>: three voiced frames and thirty silent ones.
  \<open>utterance\<close>: ten voiced frames and twenty-nine silent ones.
\<close>

definition fiveQuiet :: "event list" where
  "fiveQuiet = replicate 5 (AudioProcess quiet)"

definition twoBatches :: "event list" where
  "twoBatches = replicate 20 (AudioProcess loud) @ replicate 20 (AudioProcess loud)"

definition shortUtterance :: "event list" where
  "shortUtterance = replicate 3 (AudioProcess loud) @ replicate 30 (AudioProcess quiet)"

definition utterance :: "event list" where
  "utterance = replicate 10 (AudioProcess loud) @ replicate 29 (AudioProcess quiet)"


text \<open>
  \<open>offline\<close> is the element after a \<open>startRecording\<close> whose connection failed (or
  whose client was never created) while the microphone was granted: it records with
  \<open>this.session\<close> undefined. \<open>offlineUtterance\<close> is ten voiced frames and five
  silent ones.
\<close>

definition offline :: state where
  "offline = startRecording 0 16000 False True init"

definition offlineUtterance :: "event list" where
  "offlineUtterance = replicate 10 (AudioProcess loud) @ replicate 5 (AudioProcess quiet)"

text \<open>\<open>impulse\<close>: a frame of six samples, all 0 but one.\<close>

definition impulse :: "real list" where
  "impulse = [0, 0, 0, 1, 0, 0]"

text \<open>\<open>ramp\<close>: a frame of two samples.\<close>

definition ramp :: "real list" where
  "ramp = [1, 2]"

section \<open>Auxiliary facts\<close>

lemma foldl_append_concat:
  "foldl (\<lambda>combined chunk. combined @ chunk) acc chunks = acc @ concat chunks"
  by (induction chunks arbitrary: acc) simp_all

lemma resampleLoop_length:
  "length (resampleLoop input ratio n i out) = length out"
proof (induction input ratio n i out rule: resampleLoop.induct)
  case (1 input ratio outputLength i out)
  show ?case
  proof (cases "i < outputLength")
    case True
    with 1 show ?thesis by (subst resampleLoop.simps) simp
  next
    case False
    then show ?thesis by (subst resampleLoop.simps) simp
  qed
qed

lemma resampleLoop_nth:
  "length out = n \<Longrightarrow> j < n \<Longrightarrow>
   resampleLoop input ratio n i out ! j =
     (if i \<le> j then resampleAt input ratio j else out ! j)"
proof (induction input ratio n i out rule: resampleLoop.induct)
  case (1 input ratio outputLength i out)
  show ?case
  proof (cases "i < outputLength")
    case True
    have "resampleLoop input ratio outputLength i out ! j =
          resampleLoop input ratio outputLength (Suc i) (out[i := resampleAt input ratio i]) ! j"
      using True by (subst resampleLoop.simps) simp
    also have "\<dots> = (if Suc i \<le> j then resampleAt input ratio j
                     else (out[i := resampleAt input ratio i]) ! j)"
      using 1 True by simp
    finally show ?thesis using 1(2,3) True by (cases "i = j") (simp_all add: nth_list_update)
  next
    case False
    then show ?thesis using 1(2,3) by (subst resampleLoop.simps) simp
  qed
qed

lemma stopSources_eq:
  "stopSources xs s =
     s\<lparr>device := device s @ map SourceStop xs,
       sources := filter (\<lambda>x. x \<notin> set xs) (sources s)\<rparr>"
proof (induction xs arbitrary: s)
  case Nil
  show ?case by simp
next
  case (Cons x xs)
  have "filter (\<lambda>y. y \<notin> set xs) (removeAll x ys) =
        filter (\<lambda>y. y \<notin> set (x # xs)) ys" for ys
    by (induction ys) auto
  then show ?case by (simp add: Cons.IH)
qed

lemma onmessageInterrupted_eq:
  "onmessageInterrupted s =
     s\<lparr>device := device s @ map SourceStop (sources s), sources := [], nextStartTime := 0\<rparr>"
  by (simp add: onmessageInterrupted_def stopSources_eq)

lemma wellFormed_init: "wellFormed init"
  by (simp add: wellFormed_def init_def)

lemma onaudioprocess_wellFormed: "wellFormed s \<Longrightarrow> wellFormed (snd (onaudioprocess pcm s))"
  by (auto simp: wellFormed_def onaudioprocess_def sendAudioChunk_def Let_def
           split: sum.splits prod.splits outcome.splits if_splits)

lemma stopRecording_wellFormed: "wellFormed s \<Longrightarrow> wellFormed (snd (stopRecording s))"
  by (auto simp: wellFormed_def stopRecording_def sendAudioChunk_def Let_def
           split: sum.splits prod.splits outcome.splits if_splits)

lemma startRecording_wellFormed:
  "wellFormed s \<Longrightarrow> wellFormed (startRecording now rate c g s)"
  by (auto simp: wellFormed_def startRecording_def stopRecording_def sendAudioChunk_def
                 initAudio_def initSession_def Let_def
           split: sum.splits prod.splits outcome.splits if_splits)

lemma onmessageStart_wellFormed: "wellFormed s \<Longrightarrow> wellFormed (onmessageStart d s)"
  by (auto simp: wellFormed_def onmessageStart_def Let_def less_Suc_eq)

lemma onmessageTail_wellFormed: "wellFormed s \<Longrightarrow> wellFormed (onmessageTail msg s)"
  by (simp add: wellFormed_def onmessageTail_def onmessageInterrupted_eq)

lemma ondecoded_wellFormed: "wellFormed s \<Longrightarrow> wellFormed (ondecoded i s)"
proof -
  assume wf: "wellFormed s"
  have "wellFormed (s\<lparr>decoding := ms\<rparr>)" for ms
    using wf by (simp add: wellFormed_def)
  then show ?thesis
    using wf
    by (simp add: ondecoded_def Let_def onmessageStart_wellFormed onmessageTail_wellFormed
          split: option.splits)
qed

lemma onmessage_wellFormed: "wellFormed s \<Longrightarrow> wellFormed (onmessage msg now s)"
proof (cases "audio msg \<noteq> None \<and> audioContext s \<and> outputNode s")
  case True
  assume "wellFormed s"
  then show ?thesis using True by (simp add: onmessage_def onmessageClamp_def wellFormed_def)
next
  case False
  assume "wellFormed s"
  then show ?thesis using False by (auto simp: onmessage_def onmessageTail_wellFormed)
qed

lemma onended_wellFormed: "wellFormed s \<Longrightarrow> wellFormed (onended src s)"
  by (auto simp: wellFormed_def onended_def Let_def distinct_removeAll)

lemma reset_wellFormed: "wellFormed s \<Longrightarrow> wellFormed (reset c s)"
  by (auto simp: wellFormed_def reset_def initSession_def Let_def)

lemma step_wellFormed: "wellFormed s \<Longrightarrow> wellFormed (step e s)"
proof (cases e)
  case (StartRecording now rate c g)
  assume "wellFormed s"
  then show ?thesis using StartRecording by (simp add: startRecording_wellFormed)
next
  case (AudioProcess pcm)
  assume "wellFormed s"
  then show ?thesis using AudioProcess by (simp add: onaudioprocess_wellFormed)
next
  case CooldownElapsed
  assume "wellFormed s"
  then show ?thesis using CooldownElapsed by (simp add: wellFormed_def cooldownElapsed_def)
next
  case StopRecording
  assume "wellFormed s"
  then show ?thesis using StopRecording by (simp add: stopRecording_wellFormed)
next
  case (Message msg now)
  assume "wellFormed s"
  then show ?thesis using Message by (simp add: onmessage_wellFormed)
next
  case (Decoded i)
  assume "wellFormed s"
  then show ?thesis using Decoded by (simp add: ondecoded_wellFormed)
next
  case (DecodeFailed i)
  assume "wellFormed s"
  then show ?thesis using DecodeFailed by (simp add: ondecodeFailed_def wellFormed_def)
next
  case (SourceEnded src)
  assume "wellFormed s"
  then show ?thesis using SourceEnded by (simp add: onended_wellFormed)
next
  case (Reset c)
  assume "wellFormed s"
  then show ?thesis using Reset by (simp add: reset_wellFormed)
next
  case SessionOpen
  assume "wellFormed s"
  then show ?thesis using SessionOpen by (simp add: wellFormed_def onopen_def)
qed

lemma reachable_wellFormed: "reachable s \<Longrightarrow> wellFormed s"
  by (induction rule: reachable.induct) (simp_all add: wellFormed_init step_wellFormed)

lemma reachable_run: "reachable s \<Longrightarrow> reachable (run es s)"
  by (induction es arbitrary: s) (simp_all add: reachable_step)

lemma reachable_started: "reachable started"
  using reachable_step [OF reachable_init, of "StartRecording 0 16000 True True"]
  by (simp add: started_def)

lemma count_SourceStop:
  "distinct xs \<Longrightarrow>
   count_list (map SourceStop xs) (SourceStop src) = (if src \<in> set xs then 1 else 0)"
  by (induction xs) auto

lemma started_eq:
  "started = init\<lparr>audioContext := True, sampleRate := 16000, inputNode := True, outputNode := True,
                  session := True, mediaStream := True, isRecording := True,
                  conversationState := Listening\<rparr>"
  by (simp add: started_def startRecording_def initAudio_def initSession_def init_def Let_def)

lemma started_fields:
  "isRecording started" "conversationState started = Listening" "session started"
  "audioContext started" "sampleRate started = 16000" "inputNode started" "outputNode started"
  "nextStartTime started = 0" "mediaStream started" "sources started = []"
  "audioBuffer started = []" "silenceCount started = 0" "\<not> isProcessingAudio started"
  "sent started = []" "device started = []" "nextToken started = 0" "decoding started = []"
  by (simp_all add: started_eq init_def)

lemma threeSegments_eq:
  "run threeSegments started =
     started\<lparr>conversationState := Responding, nextStartTime := 17 / 10, nextToken := 3,
             device := [SourceStart 0 0, SourceStart 1 1, SourceStart 2 (3 / 2)],
             sources := [0, 1, 2]\<rparr>"
  by (simp add: threeSegments_def segment_def onmessage_def onmessageClamp_def ondecoded_def
        onmessageStart_def onmessageTail_def started_fields Let_def)

lemma sum_squares_replicate:
  "foldl (\<lambda>sum x. sum + x * x) a (replicate n x) = a + real n * (x * x)"
  by (induction n arbitrary: a) (simp_all add: algebra_simps)

lemma calculateAudioLevel_replicate:
  "0 < n \<Longrightarrow> calculateAudioLevel (replicate n x) = \<bar>x\<bar>"
  by (simp add: calculateAudioLevel_def sum_squares_replicate real_sqrt_mult)

lemma loud_level: "calculateAudioLevel loud = 1 / 2"
  by (simp add: loud_def calculateAudioLevel_replicate)

lemma quiet_level: "calculateAudioLevel quiet = 1 / 200"
  by (simp add: quiet_def calculateAudioLevel_replicate)

lemma loud_voice: "hasVoiceActivity (calculateAudioLevel loud)"
  by (simp add: loud_level hasVoiceActivity_def silenceThreshold_def)

lemma quiet_voice: "\<not> hasVoiceActivity (calculateAudioLevel quiet)"
  by (simp add: quiet_level hasVoiceActivity_def silenceThreshold_def)

lemma voiced_frame:
  "isRecording s \<Longrightarrow> audioContext s \<Longrightarrow> hasVoiceActivity (calculateAudioLevel pcm) \<Longrightarrow>
   resampleTo16kHz pcm (sampleRate s) = Inr r \<Longrightarrow>
   onaudioprocess pcm s =
     (if 19 \<le> length (audioBuffer s)
      then sendAudioChunk (s\<lparr>lastAudioLevel := calculateAudioLevel pcm, silenceCount := 0,
                               conversationState := Listening,
                               audioBuffer := audioBuffer s @ [r]\<rparr>)
      else (Returned, s\<lparr>lastAudioLevel := calculateAudioLevel pcm, silenceCount := 0,
                         conversationState := Listening,
                         audioBuffer := audioBuffer s @ [r]\<rparr>))"
  by (simp add: onaudioprocess_def Let_def)

lemma silent_frame:
  "isRecording s \<Longrightarrow> \<not> hasVoiceActivity (calculateAudioLevel pcm) \<Longrightarrow>
   onaudioprocess pcm s =
     (if audioBuffer s \<noteq> [] \<and> maxSilenceFrames \<le> Suc (silenceCount s)
      then (case sendAudioChunk (s\<lparr>lastAudioLevel := calculateAudioLevel pcm,
                                     silenceCount := Suc (silenceCount s)\<rparr>) of
              (Returned, s3) \<Rightarrow> (Returned, s3\<lparr>conversationState := Processing\<rparr>)
            | (Threw e, s3) \<Rightarrow> (Threw e, s3))
      else (Returned, s\<lparr>lastAudioLevel := calculateAudioLevel pcm,
                         silenceCount := Suc (silenceCount s)\<rparr>))"
  by (simp add: onaudioprocess_def Let_def)

lemma loud_step:
  "isRecording s \<Longrightarrow> audioContext s \<Longrightarrow> sampleRate s = 16000 \<Longrightarrow>
   snd (onaudioprocess loud s) =
     (if 19 \<le> length (audioBuffer s)
      then snd (sendAudioChunk (s\<lparr>lastAudioLevel := 1 / 2, silenceCount := 0,
                               conversationState := Listening,
                               audioBuffer := audioBuffer s @ [loud]\<rparr>))
      else s\<lparr>lastAudioLevel := 1 / 2, silenceCount := 0,
                         conversationState := Listening,
                         audioBuffer := audioBuffer s @ [loud]\<rparr>)"
  using voiced_frame [of s loud loud] loud_voice
  by (simp add: resampleTo16kHz_def loud_level)

lemma quiet_step:
  "isRecording s \<Longrightarrow>
   snd (onaudioprocess quiet s) =
     (if audioBuffer s \<noteq> [] \<and> maxSilenceFrames \<le> silenceCount s + 1
      then (case sendAudioChunk (s\<lparr>lastAudioLevel := 1 / 200,
                                     silenceCount := silenceCount s + 1\<rparr>) of
              (Returned, s3) \<Rightarrow> s3\<lparr>conversationState := Processing\<rparr>
            | (Threw e, s3) \<Rightarrow> s3)
      else s\<lparr>lastAudioLevel := 1 / 200, silenceCount := silenceCount s + 1\<rparr>)"
  using silent_frame [of s quiet] quiet_voice
  by (simp add: quiet_level split: prod.splits outcome.splits)

lemma run_append: "run (es @ fs) s = run fs (run es s)"
  by (induction es arbitrary: s) simp_all

lemma run_replicate_numeral:
  "run (replicate (numeral k) e) s = run (replicate (pred_numeral k) e) (step e s)"
  by (simp add: numeral_eq_Suc)

lemma shortUtterance_eq:
  "run shortUtterance started =
     started\<lparr>lastAudioLevel := 1 / 200, silenceCount := 30, conversationState := Processing,
             audioBuffer := [loud, loud, loud]\<rparr>"
  by (simp add: shortUtterance_def run_append run_replicate_numeral loud_step quiet_step started_fields
        sendAudioChunk_def minAudioFrames_def maxSilenceFrames_def)

lemma sendAudioChunk_cases:
  "sendAudioChunk s =
     (if length (audioBuffer s) < minAudioFrames \<or> isProcessingAudio s then (Returned, s)
      else if \<not> session s then (Threw TypeError, s\<lparr>isProcessingAudio := True\<rparr>)
      else (Returned, s\<lparr>isProcessingAudio := True,
                        sent := sent s @ [concat (audioBuffer s)], audioBuffer := []\<rparr>))"
  by (simp add: sendAudioChunk_def Let_def foldl_append_concat)

lemma sendAudioChunk_guarded: "isProcessingAudio s \<Longrightarrow> sendAudioChunk s = (Returned, s)"
  by (simp add: sendAudioChunk_def)

lemma onaudioprocess_guarded:
  "isProcessingAudio s \<Longrightarrow>
   sent (snd (onaudioprocess pcm s)) = sent s \<and> isProcessingAudio (snd (onaudioprocess pcm s)) \<and>
   (\<exists>new. audioBuffer (snd (onaudioprocess pcm s)) = audioBuffer s @ new)"
  by (auto simp: onaudioprocess_def Let_def sendAudioChunk_guarded split: sum.splits)

lemma stopRecording_guarded: "isProcessingAudio s \<Longrightarrow> sent (snd (stopRecording s)) = sent s"
  by (simp add: stopRecording_def Let_def sendAudioChunk_guarded)

lemma step_guarded: "isProcessingAudio s \<Longrightarrow> sent (step e s) = sent s"
proof (cases e)
  case (StartRecording now rate c g)
  assume g: "isProcessingAudio s"
  have "sent (snd (stopRecording t)) = sent s" if "isProcessingAudio t" "sent t = sent s" for t
    using that stopRecording_guarded [of t] by simp
  then show ?thesis
    using StartRecording g
    by (simp add: startRecording_def initAudio_def initSession_def Let_def)
next
  case (AudioProcess pcm)
  assume "isProcessingAudio s"
  then show ?thesis using AudioProcess by (simp add: onaudioprocess_guarded)
next
  case CooldownElapsed
  then show ?thesis by (simp add: cooldownElapsed_def)
next
  case StopRecording
  assume "isProcessingAudio s"
  then show ?thesis using StopRecording by (simp add: stopRecording_guarded)
next
  case (Message msg now)
  then show ?thesis
    by (simp add: onmessage_def onmessageClamp_def onmessageTail_def onmessageInterrupted_eq)
next
  case (Decoded i)
  then show ?thesis
    by (simp add: ondecoded_def onmessageStart_def onmessageTail_def onmessageInterrupted_eq
          Let_def split: option.splits)
next
  case (DecodeFailed i)
  then show ?thesis by (simp add: ondecodeFailed_def)
next
  case (SourceEnded src)
  then show ?thesis by (simp add: onended_def Let_def)
next
  case (Reset c)
  then show ?thesis by (simp add: reset_def initSession_def Let_def)
next
  case SessionOpen
  then show ?thesis by (simp add: onopen_def)
qed

lemma twoBatches_first:
  "run (replicate 20 (AudioProcess loud)) started =
     started\<lparr>lastAudioLevel := 1 / 2, conversationState := Listening, isProcessingAudio := True,
             sent := [concat (replicate 20 loud)]\<rparr>"
  by (simp add: run_replicate_numeral loud_step started_fields sendAudioChunk_cases
        minAudioFrames_def numeral_eq_Suc)

lemma twoBatches_eq:
  "run twoBatches started =
     started\<lparr>lastAudioLevel := 1 / 2, conversationState := Listening, isProcessingAudio := True,
             sent := [concat (replicate 20 loud)], audioBuffer := replicate 20 loud\<rparr>"
  unfolding twoBatches_def run_append twoBatches_first
  by (simp add: run_replicate_numeral loud_step started_fields sendAudioChunk_cases
        minAudioFrames_def numeral_eq_Suc)

lemma twoBatches_then:
  "run [CooldownElapsed, AudioProcess loud] (run twoBatches started) =
     started\<lparr>lastAudioLevel := 1 / 2, conversationState := Listening, isProcessingAudio := True,
             sent := [concat (replicate 20 loud), concat (replicate 20 loud) @ loud]\<rparr>"
  unfolding twoBatches_eq
  by (simp add: loud_step started_fields sendAudioChunk_cases cooldownElapsed_def
        minAudioFrames_def)

lemma fiveQuiet_eq:
  "run fiveQuiet started = started\<lparr>lastAudioLevel := 1 / 200, silenceCount := 5\<rparr>"
  by (simp add: fiveQuiet_def run_replicate_numeral quiet_step started_fields)

lemma shortUtterance_more:
  "run [Message (segment 1) 0] (run shortUtterance started) =
     started\<lparr>lastAudioLevel := 1 / 200, silenceCount := 30, conversationState := Responding,
             audioBuffer := [loud, loud, loud], decoding := [segment 1]\<rparr>"
  unfolding shortUtterance_eq
  by (simp add: segment_def onmessage_def onmessageClamp_def started_fields)

lemma shortUtterance_again:
  "run [Message (segment 1) 0, AudioProcess quiet] (run shortUtterance started) =
     started\<lparr>lastAudioLevel := 1 / 200, silenceCount := 31, conversationState := Processing,
             audioBuffer := [loud, loud, loud], decoding := [segment 1]\<rparr>"
  unfolding shortUtterance_eq
  by (simp add: segment_def onmessage_def onmessageClamp_def started_fields quiet_step
        sendAudioChunk_cases minAudioFrames_def maxSilenceFrames_def)

lemma quiet_step_empty:
  "quietEvent e \<Longrightarrow> audioBuffer s = [] \<Longrightarrow>
   audioBuffer (step e s) = [] \<and> sent (step e s) = sent s"
proof (cases e)
  case (AudioProcess pcm)
  assume "quietEvent e" "audioBuffer s = []"
  then show ?thesis
    using AudioProcess
    by (cases "isRecording s") (simp_all add: silent_frame onaudioprocess_def)
qed (simp_all add: cooldownElapsed_def)

lemma quiet_run_empty:
  "list_all quietEvent es \<Longrightarrow> audioBuffer s = [] \<Longrightarrow> sent (run es s) = sent s"
  by (induction es arbitrary: s) (simp_all add: quiet_step_empty)

lemma quiet_step_once:
  "quietEvent e \<Longrightarrow>
   sent (step e s) = sent s \<or>
   (audioBuffer (step e s) = [] \<and> length (sent (step e s)) = Suc (length (sent s)))"
proof (cases e)
  case (AudioProcess pcm)
  assume q: "quietEvent e"
  show ?thesis
  proof (cases "isRecording s")
    case True
    then show ?thesis
      using q AudioProcess by (simp add: silent_frame sendAudioChunk_cases)
  next
    case False
    then show ?thesis using AudioProcess by (simp add: onaudioprocess_def)
  qed
qed (simp_all add: cooldownElapsed_def)

lemma quiet_run_once:
  "list_all quietEvent es \<Longrightarrow> length (sent (run es s)) \<le> Suc (length (sent s))"
proof (induction es arbitrary: s)
  case Nil
  show ?case by simp
next
  case (Cons e es)
  then have q: "quietEvent e" and qs: "list_all quietEvent es" by simp_all
  from quiet_step_once [OF q, of s] show ?case
  proof
    assume "sent (step e s) = sent s"
    then show ?thesis using Cons.IH [OF qs, of "step e s"] by simp
  next
    assume "audioBuffer (step e s) = [] \<and> length (sent (step e s)) = Suc (length (sent s))"
    then show ?thesis using quiet_run_empty [OF qs, of "step e s"] by simp
  qed
qed

lemma utterance_eq:
  "run utterance started =
     started\<lparr>lastAudioLevel := 1 / 200, silenceCount := 29, conversationState := Listening,
             audioBuffer := replicate 10 loud\<rparr>"
  by (simp add: utterance_def run_append run_replicate_numeral loud_step quiet_step started_fields
        maxSilenceFrames_def numeral_eq_Suc)

lemma reachable_offline: "reachable offline"
  using reachable_step [OF reachable_init, of "StartRecording 0 16000 False True"]
  by (simp add: offline_def)

lemma offline_fields:
  "isRecording offline" "conversationState offline = Listening" "\<not> session offline"
  "audioContext offline" "sampleRate offline = 16000" "inputNode offline" "outputNode offline"
  "nextStartTime offline = 0" "mediaStream offline" "sources offline = []"
  "audioBuffer offline = []" "silenceCount offline = 0" "\<not> isProcessingAudio offline"
  "sent offline = []" "device offline = []" "nextToken offline = 0" "decoding offline = []"
  by (simp_all add: offline_def startRecording_def initAudio_def initSession_def init_def Let_def)

lemma offline_ten:
  "run (replicate 10 (AudioProcess loud)) offline =
     offline\<lparr>lastAudioLevel := 1 / 2, audioBuffer := replicate 10 loud\<rparr>"
  by (simp add: run_replicate_numeral loud_step offline_fields numeral_eq_Suc)

lemma offline_twenty:
  "run (replicate 20 (AudioProcess loud)) offline =
     offline\<lparr>lastAudioLevel := 1 / 2, audioBuffer := replicate 20 loud,
             isProcessingAudio := True\<rparr>"
  by (simp add: run_replicate_numeral loud_step offline_fields sendAudioChunk_cases
        minAudioFrames_def numeral_eq_Suc)

lemma offlineUtterance_eq:
  "run offlineUtterance offline =
     offline\<lparr>lastAudioLevel := 1 / 200, audioBuffer := replicate 10 loud, silenceCount := 5\<rparr>"
  unfolding offlineUtterance_def run_append offline_ten
  by (simp add: run_replicate_numeral quiet_step offline_fields maxSilenceFrames_def)


lemma ondecoded_plain:
  "i < length (decoding s) \<Longrightarrow> audio (decoding s ! i) = Some d \<Longrightarrow>
   \<not> interrupted (decoding s ! i) \<Longrightarrow>
   device (ondecoded i s) = device s @ [SourceStart (nextToken s) (nextStartTime s)] \<and>
   nextStartTime (ondecoded i s) = nextStartTime s + d"
  by (simp add: ondecoded_def onmessageStart_def onmessageTail_def Let_def)

lemma onmessage_arrival:
  "audio msg \<noteq> None \<Longrightarrow> audioContext s \<Longrightarrow> outputNode s \<Longrightarrow>
   onmessage msg now s =
     s\<lparr>conversationState := Responding, nextStartTime := max (nextStartTime s) now,
       decoding := decoding s @ [msg]\<rparr>"
  by (simp add: onmessage_def onmessageClamp_def)

lemma sendAudioChunk_with_session:
  "session s \<Longrightarrow> minAudioFrames \<le> length (audioBuffer s) \<Longrightarrow> \<not> isProcessingAudio s \<Longrightarrow>
   \<exists>s'. sendAudioChunk s = (Returned, s') \<and> sent s' = sent s @ [concat (audioBuffer s)]
        \<and> audioBuffer s' = []"
  by (simp add: sendAudioChunk_cases)

lemma sendAudioChunk_too_few:
  "length (audioBuffer s) < minAudioFrames \<Longrightarrow> sendAudioChunk s = (Returned, s)"
  by (simp add: sendAudioChunk_cases)

lemma stopRecording_with_session:
  assumes "reachable s" "session s"
  shows "\<exists>s'. stopRecording s = (Returned, s') \<and>
      audioBuffer s' = [] \<and> silenceCount s' = 0 \<and> \<not> isProcessingAudio s' \<and>
      sent s' = (if minAudioFrames \<le> length (audioBuffer s) \<and> \<not> isProcessingAudio s
                 then sent s @ [concat (audioBuffer s)] else sent s)"
proof (cases "\<not> isRecording s \<and> \<not> mediaStream s \<and> \<not> audioContext s")
  case True
  moreover have "audioBuffer s = [] \<and> silenceCount s = 0 \<and> \<not> isProcessingAudio s"
    using reachable_wellFormed [OF assms(1)] True by (simp add: wellFormed_def)
  ultimately show ?thesis by (simp add: stopRecording_def minAudioFrames_def)
next
  case False
  then show ?thesis
    using assms(2)
    by (auto simp: stopRecording_def Let_def sendAudioChunk_cases minAudioFrames_def)
qed

lemma roundHalfEven_nonneg: "0 \<le> q \<Longrightarrow> 0 \<le> roundHalfEven q"
proof -
  assume "0 \<le> q"
  then have "0 \<le> \<lfloor>q\<rfloor>" by simp
  then show ?thesis by (simp add: roundHalfEven_def Let_def)
qed

lemma roundToFormat_nonneg: "0 \<le> x \<Longrightarrow> 0 \<le> roundToFormat p emin x"
proof (cases "x = 0")
  case True
  then show ?thesis by (simp add: roundToFormat_def)
next
  case False
  assume "0 \<le> x"
  then have pos: "0 < x" using False by simp
  have "0 \<le> \<bar>x\<bar> / 2 powi e" for e :: int by simp
  then have "0 \<le> roundHalfEven (\<bar>x\<bar> / 2 powi e)" for e :: int
    by (rule roundHalfEven_nonneg)
  then show ?thesis
    using pos by (simp add: roundToFormat_def Let_def)
qed

lemma toDouble_nonneg: "0 \<le> x \<Longrightarrow> 0 \<le> toDouble x"
  by (simp add: toDouble_def roundToFormat_nonneg)

lemma roundToFormat_zero: "roundToFormat p emin 0 = 0"
  by (simp add: roundToFormat_def)

lemma resampleAt_zeros: "resampleAt (replicate n 0) ratio i = 0"
  by (simp add: resampleAt_def orZero_def Let_def toDouble_def toFloat32_def roundToFormat_zero)

lemma resampleLoop_zeros:
  "resampleLoop (replicate n 0) ratio m i (replicate m 0) = replicate m 0"
proof (induction "m - i" arbitrary: i)
  case 0
  then show ?case by (subst resampleLoop.simps) simp
next
  case (Suc k)
  then have "i < m" by simp
  moreover have "(replicate m (0::real))[i := 0] = replicate m 0"
    using \<open>i < m\<close> list_update_id [of "replicate m (0::real)" i] by simp
  moreover have "resampleLoop (replicate n 0) ratio m (Suc i) (replicate m 0) = replicate m 0"
    using Suc by simp
  ultimately show ?case
    by (subst resampleLoop.simps) (simp add: resampleAt_zeros)
qed

lemma toDouble_two: "toDouble 2 = 2"
  by code_simp

lemma toDouble_160: "toDouble 160 = 160"
  by code_simp

lemma ratio_35200: "toDouble (11 / 5) = 2476979795053773 / 1125899906842624"
  by code_simp

lemma quotient_35200:
  "toDouble (12384898975268864 / 825659931684591) = 8444249301319679 / 562949953421312"
  by code_simp

lemma ratio_44100: "toDouble (441 / 160) = 6206523236469965 / 2251799813685248"
  by code_simp

lemma quotient_44100:
  "toDouble (13510798882111488 / 6206523236469965) = 2450938572718637 / 1125899906842624"
  by code_simp

lemma zeros_35200: "resampleTo16kHz (replicate 33 0) 35200 = Inr (replicate 14 0)"
proof -
  have "\<lfloor>(8444249301319679 / 562949953421312 :: real)\<rfloor> = 14" by simp
  then show ?thesis
    by (simp add: resampleTo16kHz_def Let_def ratio_35200 quotient_35200 maxIndex_def
          resampleLoop_zeros)
qed

lemma impulse_44100: "resampleTo16kHz impulse 44100 = Inr [0, 6343885 / 8388608]"
  by code_simp

lemma resampleTo16kHz_samples:
  assumes "0 < rate" "rate \<noteq> 16000" "toDouble (rate / 16000) \<noteq> 0"
    and "\<lfloor>toDouble (real (length input) / toDouble (rate / 16000))\<rfloor> \<le> maxIndex"
  shows "\<exists>out. resampleTo16kHz input rate = Inr out \<and>
         int (length out) = \<lfloor>toDouble (real (length input) / toDouble (rate / 16000))\<rfloor> \<and>
         (\<forall>i < length out. out ! i = resampleAt input (toDouble (rate / 16000)) i)"
proof -
  define ratio where "ratio = toDouble (rate / 16000)"
  define n where "n = \<lfloor>toDouble (real (length input) / ratio)\<rfloor>"
  define out where "out = resampleLoop input ratio (nat n) 0 (replicate (nat n) 0)"
  have "0 \<le> ratio" using assms(1) by (simp add: ratio_def toDouble_nonneg)
  then have "0 \<le> real (length input) / ratio" by simp
  then have "0 \<le> toDouble (real (length input) / ratio)" by (rule toDouble_nonneg)
  then have n0: "0 \<le> n" by (simp add: n_def)
  have res: "resampleTo16kHz input rate = Inr out"
    using assms n0
    by (simp add: resampleTo16kHz_def Let_def out_def n_def ratio_def not_less)
  have len: "length out = nat n" by (simp add: out_def resampleLoop_length)
  have "out ! i = resampleAt input ratio i" if "i < length out" for i
    using that len by (simp add: out_def resampleLoop_nth)
  then show ?thesis
    using res len n0 unfolding n_def ratio_def by auto
qed

lemma roundHalfEven_err: "\<bar>of_int (roundHalfEven q) - q\<bar> \<le> 1 / 2"
  unfolding roundHalfEven_def Let_def by (auto; linarith)

lemma binaryExponent_bounds:
  "0 < x \<Longrightarrow> 2 powi binaryExponent x \<le> x \<and> x < 2 powi (binaryExponent x + 1)"
proof (induction x rule: binaryExponent.induct)
  case (1 x)
  have pos: "\<not> x \<le> 0" using "1.prems" by simp
  show ?case
  proof (cases "2 \<le> x")
    case True
    have be: "binaryExponent x = binaryExponent (x / 2) + 1"
      using pos True by (subst binaryExponent.simps) simp
    have ih: "2 powi binaryExponent (x / 2) \<le> x / 2 \<and> x / 2 < 2 powi (binaryExponent (x / 2) + 1)"
      using "1.IH"(1) [OF pos True] "1.prems" by simp
    have a: "(2::real) powi (binaryExponent (x / 2) + 1) = 2 powi binaryExponent (x / 2) * 2"
      by (rule power_int_add_1) simp
    have b: "(2::real) powi (binaryExponent (x / 2) + 1 + 1) = 2 powi (binaryExponent (x / 2) + 1) * 2"
      by (rule power_int_add_1) simp
    show ?thesis unfolding be b using ih a by linarith
  next
    case False
    show ?thesis
    proof (cases "x < 1")
      case True
      have be: "binaryExponent x = binaryExponent (2 * x) - 1"
        using pos False True by (subst binaryExponent.simps) simp
      have ih: "2 powi binaryExponent (2 * x) \<le> 2 * x \<and> 2 * x < 2 powi (binaryExponent (2 * x) + 1)"
        using "1.IH"(2) [OF pos False True] "1.prems" by simp
      have a: "(2::real) powi (binaryExponent (2 * x) - 1) * 2 = 2 powi binaryExponent (2 * x)"
        by (rule power_int_minus_mult) simp
      have b: "(2::real) powi (binaryExponent (2 * x) + 1) = 2 powi binaryExponent (2 * x) * 2"
        by (rule power_int_add_1) simp
      show ?thesis unfolding be using ih a b by simp
    next
      case nl: False
      have be: "binaryExponent x = 0"
        using pos False nl by (subst binaryExponent.simps) simp
      show ?thesis unfolding be using False nl by simp
    qed
  qed
qed


lemma ulp_bound:
  assumes "0 < x"
  shows "0 < (2::real) powi (max (binaryExponent x) (- 1022) - 52) \<and>
         2 powi (max (binaryExponent x) (- 1022) - 52) \<le> x / 2 ^ 52 + 1 / 2 ^ 1074"
proof (cases "- 1022 \<le> binaryExponent x")
  case True
  then have m: "max (binaryExponent x) (- 1022) = binaryExponent x" by simp
  have d: "(2::real) powi (binaryExponent x - 52) = 2 powi binaryExponent x / 2 powi 52"
    by (rule power_int_diff) simp
  have p: "(2::real) powi 52 = 2 ^ 52" by simp
  have "2 powi binaryExponent x \<le> x" using binaryExponent_bounds [OF assms] by simp
  then have "(2::real) powi binaryExponent x / 2 ^ 52 \<le> x / 2 ^ 52"
    by (simp add: divide_right_mono)
  moreover have "0 < (2::real) powi (binaryExponent x - 52)" by (simp add: zero_less_power_int)
  ultimately show ?thesis unfolding m d p using assms by simp
next
  case False
  then have m: "max (binaryExponent x) (- 1022) - 52 = - 1074" by simp
  have p: "(2::real) powi (- 1074) = 1 / 2 ^ 1074" by (simp add: power_int_minus field_simps)
  show ?thesis unfolding m p using assms by simp
qed

lemma toDouble_err:
  assumes "0 < x"
  shows "\<bar>toDouble x - x\<bar> \<le> (x / 2 ^ 52 + 1 / 2 ^ 1074) / 2"
proof -
  define ulp :: real where "ulp = 2 powi (max (binaryExponent x) (- 1022) - 52)"
  have u: "0 < ulp" "ulp \<le> x / 2 ^ 52 + 1 / 2 ^ 1074"
    using ulp_bound [OF assms] by (simp_all add: ulp_def)
  have td: "toDouble x = of_int (roundHalfEven (x / ulp)) * ulp"
    using assms by (simp add: toDouble_def roundToFormat_def Let_def ulp_def)
  have "\<bar>of_int (roundHalfEven (x / ulp)) - x / ulp\<bar> \<le> 1 / 2" by (rule roundHalfEven_err)
  then have "\<bar>of_int (roundHalfEven (x / ulp)) - x / ulp\<bar> * ulp \<le> 1 / 2 * ulp"
    using u(1) by (simp add: mult_right_mono)
  moreover have "\<bar>of_int (roundHalfEven (x / ulp)) - x / ulp\<bar> * ulp
      = \<bar>of_int (roundHalfEven (x / ulp)) * ulp - x\<bar>"
  proof -
    have "\<bar>of_int (roundHalfEven (x / ulp)) - x / ulp\<bar> * ulp
        = \<bar>(of_int (roundHalfEven (x / ulp)) - x / ulp) * ulp\<bar>"
      using u(1) by (simp add: abs_mult)
    also have "(of_int (roundHalfEven (x / ulp)) - x / ulp) * ulp
        = of_int (roundHalfEven (x / ulp)) * ulp - x"
      using u(1) by (simp add: algebra_simps)
    finally show ?thesis .
  qed
  ultimately have "\<bar>toDouble x - x\<bar> \<le> ulp / 2" unfolding td by simp
  moreover have "ulp / 2 \<le> (x / 2 ^ 52 + 1 / 2 ^ 1074) / 2"
    using u(2) by (rule divide_right_mono) simp
  ultimately show ?thesis by (rule order_trans)
qed

lemma toDouble_near:
  assumes "0 < x"
  shows "\<bar>toDouble x - x\<bar> \<le> (x + 1) / 2 ^ 53"
proof -
  have "(1::real) / 2 ^ 1074 \<le> 1 / 2 ^ 52"
    by (rule divide_left_mono) (simp_all add: power_increasing)
  then have "(x / 2 ^ 52 + 1 / 2 ^ 1074) / 2 \<le> (x / 2 ^ 52 + 1 / 2 ^ 52) / 2" by simp
  also have "\<dots> = (x + 1) / 2 ^ 53" by (simp add: field_simps)
  finally show ?thesis using toDouble_err [OF assms] by simp
qed

lemma toDouble_zero: "toDouble 0 = 0"
  by (simp add: toDouble_def roundToFormat_def)

lemma lower_index_in_range:
  assumes r: "0 < r"
    and L: "\<lfloor>toDouble (real n / r)\<rfloor> \<le> 2 ^ 48"
    and i: "int i < \<lfloor>toDouble (real n / r)\<rfloor>"
  shows "nat \<lfloor>toDouble (real i * r)\<rfloor> < n"
proof -
  have n: "0 < n"
  proof (rule ccontr)
    assume "\<not> 0 < n"
    then have "n = 0" by simp
    then show False using i by (simp add: toDouble_zero)
  qed
  show ?thesis
  proof (cases "i = 0")
    case True
    then show ?thesis using n by (simp add: toDouble_zero)
  next
    case False
    define q where "q = real n / r"
    define Q where "Q = toDouble q"
    define x where "x = real i * r"
    define T where "T = toDouble x"
    define m where "m = real n"
    have m: "1 \<le> m" using n by (simp add: m_def)
    have q: "0 < q" using n r by (simp add: q_def)
    have x: "0 < x" using False r by (simp add: x_def)
    have qr: "q * r = m" using r by (simp add: q_def m_def)
    have "\<bar>Q - q\<bar> \<le> (q + 1) / 2 ^ 53" unfolding Q_def by (rule toDouble_near [OF q])
    then have "Q - q \<le> (q + 1) / 2 ^ 53 \<and> - (Q - q) \<le> (q + 1) / 2 ^ 53"
      by (simp only: abs_le_iff)
    then have Qhi: "Q * 9007199254740992 \<le> 9007199254740993 * q + 1"
      and Qlo: "9007199254740991 * q - Q * 9007199254740992 \<le> 1"
      by simp_all
    have "\<bar>T - x\<bar> \<le> (x + 1) / 2 ^ 53" unfolding T_def by (rule toDouble_near [OF x])
    then have "T - x \<le> (x + 1) / 2 ^ 53 \<and> - (T - x) \<le> (x + 1) / 2 ^ 53"
      by (simp only: abs_le_iff)
    then have Thi: "T * 9007199254740992 \<le> 9007199254740993 * x + 1" by simp
    have Qlt: "Q < 281474976710657"
    proof -
      have "Q < of_int \<lfloor>Q\<rfloor> + 1" by linarith
      moreover have "(of_int \<lfloor>Q\<rfloor> :: real) \<le> of_int (2 ^ 48)"
        using L unfolding Q_def q_def by (rule of_int_le_iff [THEN iffD2])
      ultimately show ?thesis by simp
    qed
    have Qge: "real i + 1 \<le> Q"
    proof -
      have "int i + 1 \<le> \<lfloor>Q\<rfloor>" using i by (simp add: Q_def q_def)
      then have "of_int (int i + 1) \<le> (of_int \<lfloor>Q\<rfloor> :: real)" by (rule of_int_le_iff [THEN iffD2])
      moreover have "of_int \<lfloor>Q\<rfloor> \<le> Q" by simp
      ultimately have "of_int (int i + 1) \<le> Q" by (rule order_trans)
      then show ?thesis by simp
    qed
    have q2: "q \<le> 562949953421312"
      using Qlt Qlo q by linarith
    have rlow: "m \<le> 562949953421312 * r"
    proof -
      have "q * r \<le> 562949953421312 * r" using q2 r by (rule mult_right_mono [OF _ less_imp_le])
      then show ?thesis unfolding qr .
    qed
    have "9007199254740992 * real i + 9007199254740992 \<le> 9007199254740993 * q + 1"
      using Qge Qhi by linarith
    then have "(9007199254740992 * real i + 9007199254740992) * r \<le> (9007199254740993 * q + 1) * r"
      using r by (rule mult_right_mono [OF _ less_imp_le])
    also have "\<dots> = 9007199254740993 * m + r"
      unfolding qr [symmetric] by (simp add: algebra_simps)
    finally have xr: "9007199254740992 * x + 9007199254740992 * r \<le> 9007199254740993 * m + r"
      by (simp add: x_def algebra_simps)
    have "T < m" using Thi xr rlow m r x by linarith
    then have "\<lfloor>T\<rfloor> < int n" by (simp add: floor_less_iff m_def)
    then show ?thesis using n by (simp add: T_def x_def)
  qed
qed

lemma toDouble_half: "toDouble (1 / 2) = 1 / 2"
  by code_simp

lemma toDouble_four: "toDouble 4 = 4"
  by code_simp

lemma ramp_8000: "resampleTo16kHz ramp 8000 = Inr [1, 3 / 2, 2, 2]"
  by code_simp

section \<open>The claims\<close>




text \<open>
  C2. The interrupted branch stops every source of the active set, in one call each (the
  sources of a reachable state are pairwise different), empties the set and sets
  \<open>nextStartTime\<close> to 0. On an empty set it makes no call and changes nothing but
  \<open>nextStartTime\<close>; done twice it is the same as done once. After the three segments
  above, an interruption followed by a segment received and decoded with the clock at 5
  stops sources 0, 1 and 2 and starts the new source at 5.
\<close>

theorem onmessageInterrupted_cancels:
  "device (onmessageInterrupted s) = device s @ map SourceStop (sources s) \<and>
   sources (onmessageInterrupted s) = [] \<and>
   nextStartTime (onmessageInterrupted s) = 0 \<and>
   (reachable s \<longrightarrow>
      distinct (sources s) \<and>
      (\<forall>src. count_list (map SourceStop (sources s)) (SourceStop src) =
               (if src \<in> set (sources s) then 1 else 0))) \<and>
   (sources s = [] \<longrightarrow> onmessageInterrupted s = s\<lparr>nextStartTime := 0\<rparr>) \<and>
   onmessageInterrupted (onmessageInterrupted s) = onmessageInterrupted s \<and>
   reachable (run threeSegments started) \<and>
   sources (run threeSegments started) = [0, 1, 2] \<and>
   nextStartTime (run threeSegments started) = 17 / 10 \<and>
   sources (run [Message interruption 5] (run threeSegments started)) = [] \<and>
   device (run [Message interruption 5, Message (segment 1) 5, Decoded 0] (run threeSegments started)) =
     [SourceStart 0 0, SourceStart 1 1, SourceStart 2 (3 / 2),
      SourceStop 0, SourceStop 1, SourceStop 2, SourceStart 3 5]"
proof -
  have "reachable (run threeSegments started)"
    using reachable_started by (rule reachable_run)
  moreover have "reachable s \<longrightarrow>
      distinct (sources s) \<and>
      (\<forall>src. count_list (map SourceStop (sources s)) (SourceStop src) =
               (if src \<in> set (sources s) then 1 else 0))"
    using reachable_wellFormed [of s] by (simp add: wellFormed_def count_SourceStop)
  moreover have "sources s = [] \<longrightarrow> onmessageInterrupted s = s\<lparr>nextStartTime := 0\<rparr>"
    by (simp add: onmessageInterrupted_eq)
  moreover have "device (run [Message interruption 5, Message (segment 1) 5, Decoded 0] (run threeSegments started)) =
     [SourceStart 0 0, SourceStart 1 1, SourceStart 2 (3 / 2),
      SourceStop 0, SourceStop 1, SourceStop 2, SourceStart 3 5]"
    by (simp add: threeSegments_eq interruption_def segment_def onmessage_def onmessageTail_def
          onmessageInterrupted_eq onmessageClamp_def ondecoded_def onmessageStart_def Let_def
          started_fields)
  moreover have "sources (run [Message interruption 5] (run threeSegments started)) = []"
    by (simp add: threeSegments_eq interruption_def onmessage_def onmessageTail_def
          onmessageInterrupted_eq)
  ultimately show ?thesis
    by (simp add: onmessageInterrupted_eq threeSegments_eq)
qed

theorem onmessageInterrupted_cancels_witness:
  "reachable (run threeSegments started) \<and>
   distinct (sources (run threeSegments started)) \<and>
   count_list (map SourceStop (sources (run threeSegments started))) (SourceStop 1) = 1 \<and>
   count_list (map SourceStop (sources (run threeSegments started))) (SourceStop 3) = 0 \<and>
   sources init = [] \<and>
   onmessageInterrupted init = init\<lparr>nextStartTime := 0\<rparr>"
proof -
  have r: "reachable (run threeSegments started)"
    using reachable_started by (rule reachable_run)
  have m: "(1::nat) \<in> set (sources (run threeSegments started)) \<and>
           (3::nat) \<notin> set (sources (run threeSegments started))"
    unfolding threeSegments_eq by simp
  have e: "sources init = []" by (simp add: init_def)
  show ?thesis
    using r m e onmessageInterrupted_cancels [of "run threeSegments started"]
      onmessageInterrupted_cancels [of init]
    by simp
qed

text \<open>
  C3. The silence-triggered flush is not an edge-triggered event that fires once when
  the thirtieth silent frame follows buffered speech: the code tests
  \<open>audioBuffer.length > 0 && silenceCount >= maxSilenceFrames\<close> on every silent frame.
  With three voiced frames buffered, the thirtieth silent frame sends nothing (fewer than
  \<open>minAudioFrames\<close> frames) and sets the state to \<open>processing\<close>; an audio message
  then sets it to \<open>responding\<close>, and the thirty-first silent frame takes the branch
  again and sets it back to \<open>processing\<close>, still sending nothing.
\<close>

theorem silence_flush_not_edge_triggered:
  "length (audioBuffer (run (replicate 3 (AudioProcess loud)) started)) = 3 \<and>
   silenceCount (run shortUtterance started) = 30 \<and>
   sent (run shortUtterance started) = [] \<and>
   conversationState (run shortUtterance started) = Processing \<and>
   conversationState (run [Message (segment 1) 0] (run shortUtterance started)) = Responding \<and>
   conversationState (run [Message (segment 1) 0, AudioProcess quiet] (run shortUtterance started))
     = Processing \<and>
   sent (run [Message (segment 1) 0, AudioProcess quiet] (run shortUtterance started)) = []"
proof -
  have "length (audioBuffer (run (replicate 3 (AudioProcess loud)) started)) = 3"
    by (simp add: run_replicate_numeral loud_step started_fields)
  moreover have "conversationState (run [Message (segment 1) 0] (run shortUtterance started)) = Responding"
    unfolding shortUtterance_more by simp
  moreover have "conversationState (run [Message (segment 1) 0, AudioProcess quiet] (run shortUtterance started))
     = Processing \<and>
   sent (run [Message (segment 1) 0, AudioProcess quiet] (run shortUtterance started)) = []"
    unfolding shortUtterance_again by (simp add: started_fields)
  ultimately show ?thesis
    by (simp add: shortUtterance_eq started_fields)
qed

text \<open>
  C3 (amended). While recording, a voiced frame sets \<open>silenceCount\<close> to 0 and a frame
  at or below the threshold adds 1 to it. On a silent frame after which the count is at
  least \<open>maxSilenceFrames\<close> (30) and the buffer is not empty (a test of the level of
  the count, made again on every later silent frame while frames stay buffered), a chunk
  with all buffered frames is sent exactly when moreover at least \<open>minAudioFrames\<close>
  (10) frames are buffered, no send is in flight and a session is connected; and the
  state becomes \<open>processing\<close> whenever a session is connected, fewer than
  \<open>minAudioFrames\<close> frames are buffered or a send is in flight. On any other silent
  frame nothing is sent. A stretch of silent frames and timer callbacks sends at most
  one chunk.
\<close>

theorem silence_flush_level_triggered:
  "(isRecording s \<and> hasVoiceActivity (calculateAudioLevel pcm) \<longrightarrow>
      silenceCount (snd (onaudioprocess pcm s)) = 0) \<and>
   (isRecording s \<and> \<not> hasVoiceActivity (calculateAudioLevel pcm) \<longrightarrow>
      silenceCount (snd (onaudioprocess pcm s)) = silenceCount s + 1 \<and>
      sent (snd (onaudioprocess pcm s)) =
        (if audioBuffer s \<noteq> [] \<and> maxSilenceFrames \<le> silenceCount s + 1 \<and>
            minAudioFrames \<le> length (audioBuffer s) \<and> \<not> isProcessingAudio s \<and> session s
         then sent s @ [concat (audioBuffer s)] else sent s) \<and>
      (audioBuffer s \<noteq> [] \<and> maxSilenceFrames \<le> silenceCount s + 1 \<and>
       (session s \<or> length (audioBuffer s) < minAudioFrames \<or> isProcessingAudio s) \<longrightarrow>
         conversationState (snd (onaudioprocess pcm s)) = Processing)) \<and>
   (list_all quietEvent es \<longrightarrow> length (sent (run es s)) \<le> Suc (length (sent s))) \<and>
   maxSilenceFrames = 30 \<and> minAudioFrames = 10"
proof -
  have "silenceCount (snd (onaudioprocess pcm s)) = 0"
    if "isRecording s" "hasVoiceActivity (calculateAudioLevel pcm)"
    using that
    by (simp add: onaudioprocess_def Let_def sendAudioChunk_cases split: sum.splits)
  moreover have "silenceCount (snd (onaudioprocess pcm s)) = silenceCount s + 1 \<and>
      sent (snd (onaudioprocess pcm s)) =
        (if audioBuffer s \<noteq> [] \<and> maxSilenceFrames \<le> silenceCount s + 1 \<and>
            minAudioFrames \<le> length (audioBuffer s) \<and> \<not> isProcessingAudio s \<and> session s
         then sent s @ [concat (audioBuffer s)] else sent s) \<and>
      (audioBuffer s \<noteq> [] \<and> maxSilenceFrames \<le> silenceCount s + 1 \<and>
       (session s \<or> length (audioBuffer s) < minAudioFrames \<or> isProcessingAudio s) \<longrightarrow>
         conversationState (snd (onaudioprocess pcm s)) = Processing)"
    if "isRecording s" "\<not> hasVoiceActivity (calculateAudioLevel pcm)"
    using that by (auto simp: silent_frame sendAudioChunk_cases)
  ultimately show ?thesis
    by (simp add: quiet_run_once maxSilenceFrames_def minAudioFrames_def)
qed

theorem silence_flush_level_triggered_witness:
  "isRecording (run utterance started) \<and> hasVoiceActivity (calculateAudioLevel loud) \<and>
   silenceCount (snd (onaudioprocess loud (run utterance started))) = 0 \<and>
   \<not> hasVoiceActivity (calculateAudioLevel quiet) \<and>
   audioBuffer (run utterance started) \<noteq> [] \<and>
   maxSilenceFrames \<le> silenceCount (run utterance started) + 1 \<and>
   minAudioFrames \<le> length (audioBuffer (run utterance started)) \<and>
   \<not> isProcessingAudio (run utterance started) \<and> session (run utterance started) \<and>
   silenceCount (snd (onaudioprocess quiet (run utterance started))) = 30 \<and>
   sent (snd (onaudioprocess quiet (run utterance started))) = [concat (replicate 10 loud)] \<and>
   conversationState (snd (onaudioprocess quiet (run utterance started))) = Processing \<and>
   list_all quietEvent [AudioProcess quiet, CooldownElapsed, AudioProcess quiet] \<and>
   length (sent (run [AudioProcess quiet, CooldownElapsed, AudioProcess quiet]
                  (run utterance started))) \<le> 1"
proof -
  have h: "isRecording (run utterance started) \<and> audioBuffer (run utterance started) \<noteq> [] \<and>
   maxSilenceFrames \<le> silenceCount (run utterance started) + 1 \<and>
   minAudioFrames \<le> length (audioBuffer (run utterance started)) \<and>
   \<not> isProcessingAudio (run utterance started) \<and> session (run utterance started) \<and>
   silenceCount (run utterance started) + 1 = 30 \<and>
   sent (run utterance started) = [] \<and>
   audioBuffer (run utterance started) = replicate 10 loud"
    unfolding utterance_eq
    by (simp add: started_fields maxSilenceFrames_def minAudioFrames_def)
  have q: "list_all quietEvent [AudioProcess quiet, CooldownElapsed, AudioProcess quiet]"
    by (simp add: quiet_voice)
  show ?thesis
    using h q loud_voice quiet_voice
      silence_flush_level_triggered [of "run utterance started" loud
        "[AudioProcess quiet, CooldownElapsed, AudioProcess quiet]"]
      silence_flush_level_triggered [of "run utterance started" quiet
        "[AudioProcess quiet, CooldownElapsed, AudioProcess quiet]"]
    by simp
qed

text \<open>
  C4. While \<open>isProcessingAudio\<close> is set, \<open>sendAudioChunk\<close> does nothing, no event
  of the element adds a send, and a frame keeps the guard set and the buffered frames in
  place (a voiced frame is appended behind them). Twenty voiced frames cause one send;
  twenty more before the timer fires cause none and stay buffered; once the timer has
  cleared the guard, the next voiced frame sends them together with itself.
\<close>

theorem guard_blocks_second_send:
  "(isProcessingAudio s \<longrightarrow> sendAudioChunk s = (Returned, s)) \<and>
   (isProcessingAudio s \<longrightarrow> sent (step e s) = sent s) \<and>
   (isProcessingAudio s \<longrightarrow>
      isProcessingAudio (snd (onaudioprocess pcm s)) \<and>
      (\<exists>new. audioBuffer (snd (onaudioprocess pcm s)) = audioBuffer s @ new)) \<and>
   sent (run (replicate 20 (AudioProcess loud)) started) = [concat (replicate 20 loud)] \<and>
   isProcessingAudio (run (replicate 20 (AudioProcess loud)) started) \<and>
   sent (run twoBatches started) = [concat (replicate 20 loud)] \<and>
   audioBuffer (run twoBatches started) = replicate 20 loud \<and>
   isProcessingAudio (run twoBatches started) \<and>
   sent (run [CooldownElapsed, AudioProcess loud] (run twoBatches started)) =
     [concat (replicate 20 loud), concat (replicate 20 loud) @ loud]"
proof -
  have "sent (run [CooldownElapsed, AudioProcess loud] (run twoBatches started)) =
     [concat (replicate 20 loud), concat (replicate 20 loud) @ loud]"
    unfolding twoBatches_then by simp
  then show ?thesis
    by (simp add: sendAudioChunk_guarded step_guarded onaudioprocess_guarded
          twoBatches_first twoBatches_eq)
qed

theorem guard_blocks_second_send_witness:
  "isProcessingAudio (run twoBatches started) \<and>
   sendAudioChunk (run twoBatches started) = (Returned, run twoBatches started) \<and>
   sent (step StopRecording (run twoBatches started)) = sent (run twoBatches started) \<and>
   isProcessingAudio (snd (onaudioprocess loud (run twoBatches started))) \<and>
   (\<exists>new. audioBuffer (snd (onaudioprocess loud (run twoBatches started))) =
           audioBuffer (run twoBatches started) @ new)"
proof -
  have h: "isProcessingAudio (run twoBatches started)"
    by (simp add: twoBatches_eq)
  show ?thesis
    using h guard_blocks_second_send [of "run twoBatches started" StopRecording loud]
    by blast
qed

text \<open>
  C5. With no session the flush does not do what is asked of it. The element records
  after a failed connection; with ten voiced frames buffered and the guard clear,
  \<open>sendAudioChunk\<close> throws a TypeError: it has set the guard, sends nothing and keeps
  the buffer. In the run, the twentieth voiced frame calls it: the twenty frames stay
  buffered, nothing is sent and the guard stays set.
\<close>

theorem sendAudioChunk_without_session:
  "reachable (run (replicate 10 (AudioProcess loud)) offline) \<and>
   minAudioFrames \<le> length (audioBuffer (run (replicate 10 (AudioProcess loud)) offline)) \<and>
   \<not> isProcessingAudio (run (replicate 10 (AudioProcess loud)) offline) \<and>
   sendAudioChunk (run (replicate 10 (AudioProcess loud)) offline) =
     (Threw TypeError,
      (run (replicate 10 (AudioProcess loud)) offline)\<lparr>isProcessingAudio := True\<rparr>) \<and>
   audioBuffer (run (replicate 10 (AudioProcess loud)) offline) = replicate 10 loud \<and>
   sent (run (replicate 20 (AudioProcess loud)) offline) = [] \<and>
   audioBuffer (run (replicate 20 (AudioProcess loud)) offline) = replicate 20 loud \<and>
   isProcessingAudio (run (replicate 20 (AudioProcess loud)) offline)"
proof -
  have "reachable (run (replicate 10 (AudioProcess loud)) offline)"
    using reachable_offline by (rule reachable_run)
  then show ?thesis
    unfolding offline_ten offline_twenty
    by (simp add: sendAudioChunk_cases offline_fields minAudioFrames_def)
qed

text \<open>
  C6. The output length and the samples are not the exact quotient and the exact
  interpolation: the code computes them with doubles and stores float32 values. For 33
  samples at 35200 Hz the output has 14 samples, while the floor of the exact quotient
  \<open>33 / (35200 / 16000)\<close> is 15. At 44100 Hz the second output sample of
  \<open>impulse\<close> is 0.7562500238418579, the float32 next to the exact interpolation
  121/160 = 0.75625.
\<close>

theorem resample_rounds:
  "resampleTo16kHz (replicate 33 0) 35200 = Inr (replicate 14 0) \<and>
   nat \<lfloor>real (length (replicate 33 (0::real))) / (35200 / 16000)\<rfloor> = 15 \<and>
   resampleTo16kHz impulse 44100 = Inr [0, 6343885 / 8388608] \<and>
   impulse ! 2 * (1 - frac (1 * (44100 / 16000))) + impulse ! 3 * frac (1 * (44100 / 16000))
     = (121 / 160 :: real)"
proof -
  have b: "\<lfloor>(441 / 160 :: real)\<rfloor> = 2" by simp
  have "frac (441 / 160 :: real) = 121 / 160" by (simp add: frac_def b)
  then show ?thesis
    by (simp add: impulse_44100 zeros_35200) (simp add: impulse_def)
qed

text \<open>
  C6 (amended). At 16000 Hz \<open>resampleTo16kHz\<close> returns its input. At any other
  positive rate, with every operation rounded to a double: let \<open>ratio\<close> be
  \<open>rate / 16000\<close> and \<open>q\<close> be \<open>length / ratio\<close>; if \<open>ratio\<close> is not 0 and the
  floor of \<open>q\<close> is at most \<open>2 ^ 48\<close>, the output has floor of \<open>q\<close> samples. For
  sample \<open>i\<close>, with \<open>index\<close> the floor of \<open>i * ratio\<close> and \<open>fraction\<close> equal to
  \<open>i * ratio - index\<close>, the lower index \<open>index\<close> is within the input, and the sample
  is the float32 rounding of
  \<open>input[index] * (1 - fraction) + input[index + 1] * fraction\<close> when \<open>index + 1\<close> is
  within the input, and the float32 rounding of the lower sample \<open>input[index]\<close>
  otherwise. A frame of 320 samples at 32000 Hz gives 160 samples.
\<close>

theorem resampleTo16kHz_rounded:
  "resampleTo16kHz input 16000 = Inr input \<and>
   (0 < rate \<and> rate \<noteq> 16000 \<and> toDouble (rate / 16000) \<noteq> 0 \<and>
    \<lfloor>toDouble (real (length input) / toDouble (rate / 16000))\<rfloor> \<le> 2 ^ 48 \<longrightarrow>
      (\<exists>out. resampleTo16kHz input rate = Inr out \<and>
         int (length out) = \<lfloor>toDouble (real (length input) / toDouble (rate / 16000))\<rfloor> \<and>
         (\<forall>i < length out.
            (let ratio = toDouble (rate / 16000);
                 srcIndex = toDouble (real i * ratio);
                 index = nat \<lfloor>srcIndex\<rfloor>;
                 fraction = toDouble (srcIndex - real index)
             in index < length input \<and>
                out ! i =
                  (if index + 1 < length input
                   then toFloat32
                          (toDouble (toDouble (input ! index * toDouble (1 - fraction))
                                     + toDouble (input ! (index + 1) * fraction)))
                   else toFloat32 (input ! index)))))) \<and>
   (length input = 320 \<longrightarrow>
      (\<exists>out. resampleTo16kHz input 32000 = Inr out \<and> length out = 160))"
proof (intro conjI impI)
  show "resampleTo16kHz input 16000 = Inr input"
    by (simp add: resampleTo16kHz_def)
next
  assume h: "0 < rate \<and> rate \<noteq> 16000 \<and> toDouble (rate / 16000) \<noteq> 0 \<and>
    \<lfloor>toDouble (real (length input) / toDouble (rate / 16000))\<rfloor> \<le> 2 ^ 48"
  define ratio where "ratio = toDouble (rate / 16000)"
  have L: "\<lfloor>toDouble (real (length input) / ratio)\<rfloor> \<le> 2 ^ 48"
    using h by (simp add: ratio_def)
  have "(2::int) ^ 48 \<le> maxIndex" by (simp add: maxIndex_def)
  with L have "\<lfloor>toDouble (real (length input) / ratio)\<rfloor> \<le> maxIndex" by (rule order_trans)
  then obtain out where res: "resampleTo16kHz input rate = Inr out"
    and len: "int (length out) = \<lfloor>toDouble (real (length input) / ratio)\<rfloor>"
    and nth: "\<forall>i < length out. out ! i = resampleAt input ratio i"
    using h resampleTo16kHz_samples [of rate input] unfolding ratio_def by blast
  have "0 \<le> ratio" using h by (simp add: ratio_def toDouble_nonneg)
  then have pos: "0 < ratio" using h by (simp add: ratio_def)
  have "nat \<lfloor>toDouble (real i * ratio)\<rfloor> < length input \<and>
        out ! i =
          (if nat \<lfloor>toDouble (real i * ratio)\<rfloor> + 1 < length input
           then toFloat32
                  (toDouble
                     (toDouble (input ! nat \<lfloor>toDouble (real i * ratio)\<rfloor>
                        * toDouble (1 - toDouble (toDouble (real i * ratio)
                                       - real (nat \<lfloor>toDouble (real i * ratio)\<rfloor>))))
                      + toDouble (input ! (nat \<lfloor>toDouble (real i * ratio)\<rfloor> + 1)
                          * toDouble (toDouble (real i * ratio)
                                       - real (nat \<lfloor>toDouble (real i * ratio)\<rfloor>)))))
           else toFloat32 (input ! nat \<lfloor>toDouble (real i * ratio)\<rfloor>))"
    if i: "i < length out" for i
  proof -
    have "int i < \<lfloor>toDouble (real (length input) / ratio)\<rfloor>" using i len by simp
    with pos L have inr: "nat \<lfloor>toDouble (real i * ratio)\<rfloor> < length input"
      by (rule lower_index_in_range)
    have "out ! i = resampleAt input ratio i" using nth i by simp
    then show ?thesis using inr by (simp add: resampleAt_def orZero_def Let_def)
  qed
  then show "\<exists>out. resampleTo16kHz input rate = Inr out \<and>
         int (length out) = \<lfloor>toDouble (real (length input) / toDouble (rate / 16000))\<rfloor> \<and>
         (\<forall>i < length out.
            (let ratio = toDouble (rate / 16000);
                 srcIndex = toDouble (real i * ratio);
                 index = nat \<lfloor>srcIndex\<rfloor>;
                 fraction = toDouble (srcIndex - real index)
             in index < length input \<and>
                out ! i =
                  (if index + 1 < length input
                   then toFloat32
                          (toDouble (toDouble (input ! index * toDouble (1 - fraction))
                                     + toDouble (input ! (index + 1) * fraction)))
                   else toFloat32 (input ! index))))"
    using res len unfolding ratio_def Let_def by blast
next
  assume l: "length input = 320"
  have "\<lfloor>(160::real)\<rfloor> = 160" by simp
  then show "\<exists>out. resampleTo16kHz input 32000 = Inr out \<and> length out = 160"
    using l
    by (simp add: resampleTo16kHz_def Let_def toDouble_two toDouble_160 maxIndex_def
          resampleLoop_length)
qed

theorem resampleTo16kHz_rounded_witness:
  "(0::real) < 8000 \<and> (8000::real) \<noteq> 16000 \<and> toDouble (8000 / 16000) \<noteq> 0 \<and>
   \<lfloor>toDouble (real (length ramp) / toDouble (8000 / 16000))\<rfloor> \<le> 2 ^ 48 \<and>
   \<lfloor>toDouble (real (length ramp) / toDouble (8000 / 16000))\<rfloor> = 4 \<and>
   (\<exists>out. resampleTo16kHz ramp 8000 = Inr out \<and> int (length out) = 4 \<and>
         out = [1, 3 / 2, 2, 2]) \<and>
   length (replicate 320 (0::real)) = 320 \<and>
   (\<exists>out. resampleTo16kHz (replicate 320 0) 32000 = Inr out \<and> length out = 160)"
proof -
  have q: "\<lfloor>toDouble (real (length ramp) / toDouble (8000 / 16000))\<rfloor> = 4"
    by (simp add: ramp_def toDouble_half toDouble_four)
  have h: "(0::real) < 8000 \<and> (8000::real) \<noteq> 16000 \<and> toDouble (8000 / 16000) \<noteq> 0 \<and>
   \<lfloor>toDouble (real (length ramp) / toDouble (8000 / 16000))\<rfloor> \<le> 2 ^ 48"
    unfolding q by (simp add: toDouble_half)
  from h resampleTo16kHz_rounded [of ramp 8000]
  obtain out where res: "resampleTo16kHz ramp 8000 = Inr out"
    and len: "int (length out) = \<lfloor>toDouble (real (length ramp) / toDouble (8000 / 16000))\<rfloor>"
    by blast
  have "out = [1, 3 / 2, 2, 2]" using res by (simp add: ramp_8000)
  then have a: "\<exists>out. resampleTo16kHz ramp 8000 = Inr out \<and> int (length out) = 4 \<and>
         out = [1, 3 / 2, 2, 2]"
    using res by simp
  have b: "\<exists>out. resampleTo16kHz (replicate 320 0) 32000 = Inr out \<and> length out = 160"
    using resampleTo16kHz_rounded [of "replicate 320 0"] by simp
  show ?thesis using h q a b by simp
qed

text \<open>
  C7. \<open>nextStartTime\<close> is not at least the device clock in every reachable state:
  after a segment of 1 s received and decoded at clock 0, an interruption received at
  clock 5 leaves \<open>nextStartTime\<close> at 0.
\<close>

theorem nextStartTime_behind_clock:
  "reachable (run [Message (segment 1) 0, Decoded 0, Message interruption 5] started) \<and>
   nextStartTime (run [Message (segment 1) 0, Decoded 0, Message interruption 5] started) < 5"
proof -
  have "reachable (run [Message (segment 1) 0, Decoded 0, Message interruption 5] started)"
    using reachable_started by (rule reachable_run)
  then show ?thesis
    by (simp add: segment_def interruption_def onmessage_def onmessageClamp_def
          onmessageTail_def ondecoded_def onmessageStart_def onmessageInterrupted_eq
          started_fields Let_def)
qed

text \<open>
  C7 (amended). Right after \<open>initAudio\<close>, and right after the arrival of a message
  with audio while the audio context and the output node exist, \<open>nextStartTime\<close> is at
  least the clock reading of that step. The completed decoding of a segment of
  non-negative duration, from a message not flagged interrupted, does not lower
  \<open>nextStartTime\<close>; so when it completes before any other handler runs,
  \<open>nextStartTime\<close> is still at least the clock reading of the arrival. The end of a
  source leaves \<open>nextStartTime\<close> as it is and an interruption sets it to 0.
\<close>

theorem nextStartTime_clamped:
  "nextStartTime (initAudio now rate s) = now \<and>
   (audio msg \<noteq> None \<and> audioContext s \<and> outputNode s \<longrightarrow>
      now \<le> nextStartTime (onmessage msg now s)) \<and>
   (i < length (decoding s) \<and> audio (decoding s ! i) = Some d \<and> 0 \<le> d \<and>
    \<not> interrupted (decoding s ! i) \<longrightarrow>
      nextStartTime s \<le> nextStartTime (ondecoded i s)) \<and>
   (audio msg = Some d \<and> 0 \<le> d \<and> \<not> interrupted msg \<and> audioContext s \<and> outputNode s \<longrightarrow>
      now \<le> nextStartTime (ondecoded (length (decoding s)) (onmessage msg now s))) \<and>
   nextStartTime (onended src s) = nextStartTime s \<and>
   nextStartTime (onmessageInterrupted s) = 0"
proof -
  have a: "now \<le> nextStartTime (onmessage msg now s)"
    if "audio msg \<noteq> None" "audioContext s" "outputNode s"
    using that by (simp add: onmessage_arrival)
  have b: "nextStartTime s \<le> nextStartTime (ondecoded i s)"
    if "i < length (decoding s)" "audio (decoding s ! i) = Some d" "0 \<le> d"
       "\<not> interrupted (decoding s ! i)"
    using that ondecoded_plain [of i s d] by simp
  have c: "now \<le> nextStartTime (ondecoded (length (decoding s)) (onmessage msg now s))"
    if m: "audio msg = Some d" "0 \<le> d" "\<not> interrupted msg" and g: "audioContext s" "outputNode s"
  proof -
    have arr: "onmessage msg now s =
          s\<lparr>conversationState := Responding, nextStartTime := max (nextStartTime s) now,
            decoding := decoding s @ [msg]\<rparr>"
      using m g by (simp add: onmessage_arrival)
    have "nextStartTime (ondecoded (length (decoding s)) (onmessage msg now s)) =
          max (nextStartTime s) now + d"
      using m ondecoded_plain [of "length (decoding s)" "onmessage msg now s" d]
      by (simp add: arr)
    then show ?thesis using m by simp
  qed
  show ?thesis
    using a b c
    by (simp add: initAudio_def onended_def onmessageInterrupted_eq Let_def)
qed

theorem nextStartTime_clamped_witness:
  "audio (segment 1) = Some 1 \<and> \<not> interrupted (segment 1) \<and> (0::real) \<le> 1 \<and>
   audioContext (run threeSegments started) \<and> outputNode (run threeSegments started) \<and>
   decoding (run threeSegments started) = [] \<and>
   5 \<le> nextStartTime (onmessage (segment 1) 5 (run threeSegments started)) \<and>
   5 \<le> nextStartTime (ondecoded 0 (onmessage (segment 1) 5 (run threeSegments started))) \<and>
   0 < length (decoding (onmessage (segment 1) 5 (run threeSegments started))) \<and>
   audio (decoding (onmessage (segment 1) 5 (run threeSegments started)) ! 0) = Some 1 \<and>
   \<not> interrupted (decoding (onmessage (segment 1) 5 (run threeSegments started)) ! 0) \<and>
   nextStartTime (onmessage (segment 1) 5 (run threeSegments started))
     \<le> nextStartTime (ondecoded 0 (onmessage (segment 1) 5 (run threeSegments started)))"
proof -
  have h: "audio (segment 1) = Some 1 \<and> \<not> interrupted (segment 1) \<and>
           audio (segment 1) \<noteq> None \<and>
           audioContext (run threeSegments started) \<and> outputNode (run threeSegments started) \<and>
           decoding (run threeSegments started) = []"
    unfolding threeSegments_eq by (simp add: segment_def started_fields)
  have d: "decoding (onmessage (segment 1) 5 (run threeSegments started)) = [segment 1]"
    using h by (simp add: onmessage_arrival)
  show ?thesis
    using h d nextStartTime_clamped [of 5 0 "run threeSegments started" "segment 1" 0 1 0]
      nextStartTime_clamped [of 5 0 "onmessage (segment 1) 5 (run threeSegments started)"
        "segment 1" 0 1 0]
    by simp
qed




text \<open>
  C9. A frame whose level is at or below the threshold is not appended: after it the
  buffer is what it was, or empty when the frame flushed it. Five silent frames on a
  fresh recording leave the buffer empty and send nothing.
\<close>

theorem silent_frame_not_buffered:
  "(\<not> hasVoiceActivity (calculateAudioLevel pcm) \<longrightarrow>
      audioBuffer (snd (onaudioprocess pcm s)) = audioBuffer s \<or>
      audioBuffer (snd (onaudioprocess pcm s)) = []) \<and>
   hasVoiceActivity level = (1 / 100 < level) \<and>
   audioBuffer started = [] \<and>
   audioBuffer (run fiveQuiet started) = [] \<and>
   sent (run fiveQuiet started) = [] \<and>
   silenceCount (run fiveQuiet started) = 5"
proof -
  have "audioBuffer (snd (onaudioprocess pcm s)) = audioBuffer s \<or>
        audioBuffer (snd (onaudioprocess pcm s)) = []"
    if "\<not> hasVoiceActivity (calculateAudioLevel pcm)"
  proof (cases "isRecording s")
    case True
    then show ?thesis
      using that by (simp add: silent_frame sendAudioChunk_cases)
  next
    case False
    then show ?thesis by (simp add: onaudioprocess_def)
  qed
  then show ?thesis
    by (simp add: hasVoiceActivity_def silenceThreshold_def fiveQuiet_eq started_fields)
qed

theorem silent_frame_not_buffered_witness:
  "\<not> hasVoiceActivity (calculateAudioLevel quiet) \<and>
   (audioBuffer (snd (onaudioprocess quiet (run twoBatches started))) =
      audioBuffer (run twoBatches started) \<or>
    audioBuffer (snd (onaudioprocess quiet (run twoBatches started))) = [])"
  using silent_frame_not_buffered [of quiet "run twoBatches started"] quiet_voice
  by blast

text \<open>
  C10. With no session \<open>stopRecording\<close> does not reset the element. After a failed
  connection, ten voiced frames and five silent ones, the guard is clear and ten frames
  are pending; \<open>stopRecording\<close> clears \<open>isRecording\<close>, the send it attempts throws a
  TypeError, and the rest is skipped: the ten frames stay buffered, \<open>silenceCount\<close>
  stays 5, the guard is left set, nothing is sent and the media stream is kept.
\<close>

theorem stopRecording_without_session:
  "reachable (run offlineUtterance offline) \<and>
   minAudioFrames \<le> length (audioBuffer (run offlineUtterance offline)) \<and>
   \<not> isProcessingAudio (run offlineUtterance offline) \<and>
   stopRecording (run offlineUtterance offline) =
     (Threw TypeError,
      (run offlineUtterance offline)\<lparr>isRecording := False, isProcessingAudio := True\<rparr>) \<and>
   audioBuffer (snd (stopRecording (run offlineUtterance offline))) = replicate 10 loud \<and>
   silenceCount (snd (stopRecording (run offlineUtterance offline))) = 5 \<and>
   isProcessingAudio (snd (stopRecording (run offlineUtterance offline))) \<and>
   sent (snd (stopRecording (run offlineUtterance offline))) = [] \<and>
   mediaStream (snd (stopRecording (run offlineUtterance offline)))"
proof -
  have r: "reachable (run offlineUtterance offline)"
    using reachable_offline by (rule reachable_run)
  have st: "stopRecording (run offlineUtterance offline) =
     (Threw TypeError,
      (run offlineUtterance offline)\<lparr>isRecording := False, isProcessingAudio := True\<rparr>)"
    unfolding offlineUtterance_eq
    by (simp add: stopRecording_def Let_def sendAudioChunk_cases offline_fields minAudioFrames_def)
  show ?thesis
    using r unfolding st
    by (simp add: offlineUtterance_eq offline_fields minAudioFrames_def)
qed

end
